theory Spec2Isabelle
  imports Complex_Main "HOL-Library.Sublist" "HOL-Library.Product_Lexorder"
begin

section \<open>JavaScript values used by the request handlers\<close>

text \<open>
  Form and query fields arrive as strings or are absent (\<open>undefined\<close>): a field is a
  \<open>string option\<close>. A string is truthy when it is not empty; \<open>undefined\<close> is falsy.
  Characters are code units below 256.
\<close>

type_synonym field = "string option"

definition truthy :: "field \<Rightarrow> bool" where
  "truthy f = (case f of None \<Rightarrow> False | Some str \<Rightarrow> str \<noteq> [])"

definition toString :: "field \<Rightarrow> string" where
  "toString f = (case f of None \<Rightarrow> ''undefined'' | Some str \<Rightarrow> str)"

text \<open>
  \<open>parseInt(string)\<close> without a radix: leading white space is dropped, one sign is read,
  a \<open>0x\<close>/\<open>0X\<close> prefix selects radix 16 (radix 10 otherwise), and the longest prefix of
  digits of that radix is the value; with no digit the result is \<open>NaN\<close>. The number is kept
  as an exact integer, which is the JavaScript number for magnitudes up to \<open>2^53\<close>;
  \<open>-0\<close> is \<open>0\<close>.
\<close>

datatype jsnum = NaN | Num (numval: int)

definition isNaN :: "jsnum \<Rightarrow> bool" where
  "isNaN x = (case x of NaN \<Rightarrow> True | Num n \<Rightarrow> False)"

definition truthy_num :: "jsnum \<Rightarrow> bool" where
  "truthy_num x = (case x of NaN \<Rightarrow> False | Num n \<Rightarrow> n \<noteq> 0)"

definition isWhiteSpace :: "char \<Rightarrow> bool" where
  "isWhiteSpace c = (of_char c \<in> set [9, 10, 11, 12, 13, 32, 160 :: nat])"

definition digitValue :: "char \<Rightarrow> nat option" where
  "digitValue c =
     (let n = (of_char c :: nat) in
      if 48 \<le> n \<and> n \<le> 57 then Some (n - 48)
      else if 97 \<le> n \<and> n \<le> 122 then Some (n - 87)
      else if 65 \<le> n \<and> n \<le> 90 then Some (n - 55)
      else None)"

definition isRadixDigit :: "nat \<Rightarrow> char \<Rightarrow> bool" where
  "isRadixDigit R c = (case digitValue c of None \<Rightarrow> False | Some d \<Rightarrow> d < R)"

definition digitsValue :: "nat \<Rightarrow> string \<Rightarrow> nat" where
  "digitsValue R Z = foldl (\<lambda>acc c. acc * R + the (digitValue c)) 0 Z"

definition parseInt :: "string \<Rightarrow> jsnum" where
  "parseInt inputString =
     (let S = dropWhile isWhiteSpace inputString;
          sign = (if take 1 S = ''-'' then - 1 else 1 :: int);
          S1 = (if take 1 S = ''+'' \<or> take 1 S = ''-'' then drop 1 S else S);
          hex = (take 2 S1 = ''0x'' \<or> take 2 S1 = ''0X'');
          R = (if hex then 16 else 10);
          S2 = (if hex then drop 2 S1 else S1);
          Z = takeWhile (isRadixDigit R) S2
      in if Z = [] then NaN else Num (sign * int (digitsValue R Z)))"

section \<open>Regular expressions and the link pattern\<close>

text \<open>
  A regular expression without back-references or look-around accepts a language, and
  \<open>RegExp.prototype.test\<close> on a pattern anchored with \<open>^\<close> and \<open>$\<close> decides membership
  of the whole string. Membership is computed by derivatives. A character class is a list
  of inclusive ranges.
\<close>

datatype regex =
    Nothing
  | Empty
  | Class "(char \<times> char) list"
  | Alt regex regex
  | Seq regex regex
  | Star regex

definition inClass :: "(char \<times> char) list \<Rightarrow> char \<Rightarrow> bool" where
  "inClass rs c = list_ex (\<lambda>(lo, hi). (of_char lo :: nat) \<le> of_char c \<and> (of_char c :: nat) \<le> of_char hi) rs"

fun nullable :: "regex \<Rightarrow> bool" where
  "nullable Nothing = False"
| "nullable Empty = True"
| "nullable (Class rs) = False"
| "nullable (Alt r1 r2) = (nullable r1 \<or> nullable r2)"
| "nullable (Seq r1 r2) = (nullable r1 \<and> nullable r2)"
| "nullable (Star r) = True"

fun deriv :: "char \<Rightarrow> regex \<Rightarrow> regex" where
  "deriv c Nothing = Nothing"
| "deriv c Empty = Nothing"
| "deriv c (Class rs) = (if inClass rs c then Empty else Nothing)"
| "deriv c (Alt r1 r2) = Alt (deriv c r1) (deriv c r2)"
| "deriv c (Seq r1 r2) =
     (if nullable r1 then Alt (Seq (deriv c r1) r2) (deriv c r2) else Seq (deriv c r1) r2)"
| "deriv c (Star r) = Seq (deriv c r) (Star r)"

definition regex_test :: "regex \<Rightarrow> string \<Rightarrow> bool" where
  "regex_test r str = nullable (foldl (\<lambda>r' c. deriv c r') r str)"

text \<open>The language of a regular expression, against which the matcher is checked below.\<close>

inductive_set star :: "string set \<Rightarrow> string set" for A :: "string set" where
  star_empty: "[] \<in> star A"
| star_step: "u \<in> A \<Longrightarrow> v \<in> star A \<Longrightarrow> u @ v \<in> star A"

fun lang :: "regex \<Rightarrow> string set" where
  "lang Nothing = {}"
| "lang Empty = {[]}"
| "lang (Class rs) = {[c] | c. inClass rs c}"
| "lang (Alt r1 r2) = lang r1 \<union> lang r2"
| "lang (Seq r1 r2) = {u @ v | u v. u \<in> lang r1 \<and> v \<in> lang r2}"
| "lang (Star r) = star (lang r)"

definition Lit :: "string \<Rightarrow> regex" where
  "Lit str = foldr (\<lambda>c r. Seq (Class [(c, c)]) r) str Empty"

definition Opt :: "regex \<Rightarrow> regex" where
  "Opt r = Alt r Empty"

definition Plus :: "regex \<Rightarrow> regex" where
  "Plus r = Seq r (Star r)"

text \<open>
  \<^verbatim>\<open>/^(https?:\/\/)?([\da-z\.-]+)\.([a-z\.]{2,6})([\/\w \.-]*)*\/?$/\<close>
\<close>

definition hostClass :: regex where
  "hostClass = Class [(CHR ''0'', CHR ''9''), (CHR ''a'', CHR ''z''), (CHR ''.'', CHR ''.''), (CHR ''-'', CHR ''-'')]"

definition tldClass :: regex where
  "tldClass = Class [(CHR ''a'', CHR ''z''), (CHR ''.'', CHR ''.'')]"

definition pathClass :: regex where
  "pathClass = Class [(CHR ''/'', CHR ''/''), (CHR ''A'', CHR ''Z''), (CHR ''a'', CHR ''z''),
                      (CHR ''0'', CHR ''9''), (CHR ''_'', CHR ''_''), (CHR '' '', CHR '' ''),
                      (CHR ''.'', CHR ''.''), (CHR ''-'', CHR ''-'')]"

definition urlPattern :: regex where
  "urlPattern =
     Seq (Opt (Seq (Lit ''http'') (Seq (Opt (Lit ''s'')) (Lit ''://''))))
      (Seq (Plus hostClass)
        (Seq (Lit ''.'')
          (Seq (Seq tldClass (Seq tldClass
                  (Seq (Opt tldClass) (Seq (Opt tldClass) (Seq (Opt tldClass) (Opt tldClass))))))
            (Seq (Star (Star pathClass)) (Opt (Lit ''/''))))))"

section \<open>The database\<close>

text \<open>
  One record per table row, with the columns of the \<open>CREATE TABLE\<close> statements; field
  prefixes are the aliases of the browse query (\<open>u\<close>, \<open>a\<close>, \<open>t\<close>, \<open>at\<close>, \<open>r\<close>). A nullable
  column is an \<open>option\<close>. Timestamps are seconds of a clock that the caller passes in.
  A table is the list of its rows in insertion order; every \<open>AUTOINCREMENT\<close> table has its
  entry of \<open>sqlite_sequence\<close>, the largest row id handed out so far.
\<close>

record users_row =
  u_id :: int
  u_wallet_address :: string
  u_subscription_tier :: string
  u_lens_handle :: "string option"
  u_farcaster_handle :: "string option"
  u_created_at :: nat
  u_last_login :: nat

record agents_row =
  a_id :: int
  a_name :: string
  a_description :: string
  a_category :: string
  a_link :: "string option"
  a_ipfs_hash :: "string option"
  a_creator_wallet :: "string option"
  a_original_agent_id :: "int option"
  a_fork_count :: int
  a_is_premium :: int
  a_created_at :: nat

record tags_row =
  t_id :: int
  t_name :: string
  t_created_at :: nat

record agent_tags_row =
  at_agent_id :: int
  at_tag_id :: int

record ratings_row =
  r_id :: int
  r_agent_id :: int
  r_wallet_address :: "string option"
  r_stars :: int
  r_comment :: "string option"
  r_created_at :: nat

datatype log_entry =
    AgentAdded int
  | ErrorSavingRating string

text \<open>
  The state of the process: the tables, the \<open>sessions\<close> map from session id to wallet
  address, and what was written to the console.
\<close>

record app_state =
  users :: "users_row list"
  users_seq :: int
  agents :: "agents_row list"
  agents_seq :: int
  tags :: "tags_row list"
  agent_tags :: "agent_tags_row list"
  ratings :: "ratings_row list"
  ratings_seq :: int
  sessions :: "string \<rightharpoonup> string"
  console :: "log_entry list"

definition init_state :: app_state where
  "init_state = \<lparr>users = [], users_seq = 0, agents = [], agents_seq = 0, tags = [],
     agent_tags = [], ratings = [], ratings_seq = 0, sessions = Map.empty, console = []\<rparr>"

text \<open>
  An \<open>AUTOINCREMENT\<close> key is one more than the largest row id that the table holds or
  has ever held.
\<close>

definition next_rowid :: "int \<Rightarrow> int list \<Rightarrow> int" where
  "next_rowid seq ids = fold max ids seq + 1"

text \<open>
  \<^verbatim>\<open>INSERT INTO agents (name, description, category, link[, original_agent_id])\<close>:
  the columns that the statement does not name take their defaults. The result carries
  \<open>this.lastID\<close>.
\<close>

definition insert_agent ::
  "nat \<Rightarrow> string \<Rightarrow> string \<Rightarrow> string \<Rightarrow> string \<Rightarrow> int option \<Rightarrow> app_state \<Rightarrow> int \<times> app_state" where
  "insert_agent now name description category link original s =
     (let lastID = next_rowid (agents_seq s) (map a_id (agents s));
          row = \<lparr>a_id = lastID, a_name = name, a_description = description,
                 a_category = category, a_link = Some link, a_ipfs_hash = None,
                 a_creator_wallet = None, a_original_agent_id = original,
                 a_fork_count = 0, a_is_premium = 0, a_created_at = now\<rparr>
      in (lastID, s\<lparr>agents := agents s @ [row], agents_seq := lastID\<rparr>))"

text \<open>\<^verbatim>\<open>UPDATE agents SET fork_count = fork_count + 1 WHERE id = ?\<close>\<close>

definition update_fork_count :: "int \<Rightarrow> app_state \<Rightarrow> app_state" where
  "update_fork_count i s =
     s\<lparr>agents := map (\<lambda>a. if a_id a = i then a\<lparr>a_fork_count := a_fork_count a + 1\<rparr> else a)
                      (agents s)\<rparr>"

text \<open>\<^verbatim>\<open>SELECT * FROM agents WHERE id = ?\<close>\<close>

definition get_agent :: "app_state \<Rightarrow> int \<Rightarrow> agents_row option" where
  "get_agent s i = find (\<lambda>a. a_id a = i) (agents s)"

text \<open>
  An insert into \<open>ratings\<close> is refused by the \<open>CHECK\<close> on \<open>stars\<close> and by
  \<open>UNIQUE(agent_id, wallet_address)\<close>; under that constraint two rows conflict only when
  both wallet addresses are not null. The process never turns on the enforcement of
  foreign keys, which SQLite leaves off, so a row may reference an agent or a wallet
  that does not exist.
\<close>

datatype db_error = SQLITE_CONSTRAINT string

definition insert_rating ::
  "nat \<Rightarrow> int \<Rightarrow> string option \<Rightarrow> int \<Rightarrow> string option \<Rightarrow> app_state \<Rightarrow> db_error + app_state" where
  "insert_rating now agent_id wallet stars comment s =
     (if \<not> (1 \<le> stars \<and> stars \<le> 5) then Inl (SQLITE_CONSTRAINT ''CHECK constraint failed'')
      else if wallet \<noteq> None \<and>
              list_ex (\<lambda>r. r_agent_id r = agent_id \<and> r_wallet_address r = wallet) (ratings s)
      then Inl (SQLITE_CONSTRAINT ''UNIQUE constraint failed: ratings.agent_id, ratings.wallet_address'')
      else
        (let newid = next_rowid (ratings_seq s) (map r_id (ratings s));
             row = \<lparr>r_id = newid, r_agent_id = agent_id, r_wallet_address = wallet,
                    r_stars = stars, r_comment = comment, r_created_at = now\<rparr>
         in Inr (s\<lparr>ratings := ratings s @ [row], ratings_seq := newid\<rparr>)))"

text \<open>
  \<^verbatim>\<open>INSERT OR REPLACE INTO users (wallet_address, last_login) VALUES (?, CURRENT_TIMESTAMP)\<close>:
  a row with the same wallet address violates \<open>UNIQUE\<close>, so it is deleted, and the new
  row is inserted with a fresh id and the defaults of the columns it does not name.
\<close>

definition insert_or_replace_user :: "nat \<Rightarrow> string \<Rightarrow> app_state \<Rightarrow> app_state" where
  "insert_or_replace_user now wallet s =
     (let newid = next_rowid (users_seq s) (map u_id (users s));
          row = \<lparr>u_id = newid, u_wallet_address = wallet, u_subscription_tier = ''creator'',
                 u_lens_handle = None, u_farcaster_handle = None,
                 u_created_at = now, u_last_login = now\<rparr>
      in s\<lparr>users := filter (\<lambda>u. u_wallet_address u \<noteq> wallet) (users s) @ [row],
           users_seq := newid\<rparr>)"

section \<open>Request handlers\<close>

datatype response =
    Redirect string
  | SendStatus nat string
  | JsonError nat string
  | JsonLogin string string
  | JsonSuccess

text \<open>\<open>checkSession\<close>: \<open>req.user\<close> is the wallet of a known session id, else absent.\<close>

definition checkSession :: "app_state \<Rightarrow> field \<Rightarrow> string option" where
  "checkSession s sessionId =
     (case sessionId of
        None \<Rightarrow> None
      | Some sid \<Rightarrow> if sid \<noteq> [] \<and> sessions s sid \<noteq> None then sessions s sid else None)"

text \<open>
  \<open>POST /api/login\<close>. The session id comes from \<open>generateSessionId()\<close>, a random value
  that the model takes as an argument.
\<close>

record login_body =
  walletAddress :: field
  signature :: field

definition login :: "nat \<Rightarrow> string \<Rightarrow> login_body \<Rightarrow> app_state \<Rightarrow> response \<times> app_state" where
  "login now sessionId body s =
     (if \<not> truthy (walletAddress body) then (JsonError 400 ''Wallet address required'', s)
      else
        (let w = the (walletAddress body);
             s1 = insert_or_replace_user now w s
         in (JsonLogin sessionId w, s1\<lparr>sessions := (sessions s1)(sessionId \<mapsto> w)\<rparr>)))"

text \<open>\<open>POST /api/logout\<close>\<close>

definition logout :: "field \<Rightarrow> app_state \<Rightarrow> response \<times> app_state" where
  "logout sessionId s =
     (if truthy sessionId then (JsonSuccess, s\<lparr>sessions := (sessions s)(the sessionId := None)\<rparr>)
      else (JsonSuccess, s))"

text \<open>
  \<open>POST /rate\<close>. The handler does not read \<open>req.user\<close>, and its \<open>INSERT\<close> names only
  \<open>agent_id\<close>, \<open>stars\<close> and \<open>comment\<close>, so the wallet address of the row is null.
\<close>

record rate_body =
  body_agent_id :: field
  body_stars :: field
  body_comment :: field

definition rate :: "nat \<Rightarrow> string option \<Rightarrow> rate_body \<Rightarrow> app_state \<Rightarrow> response \<times> app_state" where
  "rate now user body s =
     (let agentIdInt = parseInt (toString (body_agent_id body));
          starsInt = parseInt (toString (body_stars body));
          target = ''/agent/'' @ toString (body_agent_id body)
      in if isNaN agentIdInt \<or> isNaN starsInt \<or> numval starsInt < 1 \<or> numval starsInt > 5
         then (Redirect target, s)
         else (case insert_rating now (numval agentIdInt) None (numval starsInt)
                      (if truthy (body_comment body) then body_comment body else None) s of
                 Inl (SQLITE_CONSTRAINT msg) \<Rightarrow>
                   (Redirect target, s\<lparr>console := console s @ [ErrorSavingRating msg]\<rparr>)
               | Inr s' \<Rightarrow> (Redirect target, s')))"

text \<open>
  \<open>POST /submit\<close>. \<open>creatorWallet\<close>, \<open>ipfs_hash\<close>, \<open>tags\<close> and \<open>is_premium\<close> are read from
  the request and not used afterwards.
\<close>

record submit_body =
  body_name :: field
  body_description :: field
  body_category :: field
  body_link :: field
  body_ipfs_hash :: field
  body_tags :: field
  body_is_premium :: field
  body_original_agent_id :: field

definition originalAgentId :: "submit_body \<Rightarrow> jsnum option" where
  "originalAgentId body =
     (if truthy (body_original_agent_id body)
      then Some (parseInt (the (body_original_agent_id body))) else None)"

text \<open>
  \<open>originalAgentId\<close> is used as a condition twice, to choose the \<open>INSERT\<close> with the
  lineage column and to guard the \<open>UPDATE\<close>: \<open>lineage\<close> is its value when it is truthy.
\<close>

definition lineage :: "jsnum option \<Rightarrow> int option" where
  "lineage oid =
     (case oid of
        None \<Rightarrow> None
      | Some x \<Rightarrow> if truthy_num x then Some (numval x) else None)"

definition submit :: "nat \<Rightarrow> string option \<Rightarrow> submit_body \<Rightarrow> app_state \<Rightarrow> response \<times> app_state" where
  "submit now user body s =
     (let creatorWallet = user in
      if \<not> truthy (body_name body) \<or> \<not> truthy (body_description body) \<or>
         \<not> truthy (body_category body) \<or> \<not> truthy (body_link body)
      then (SendStatus 400 ''All fields are required. Please go back and fill in all information.'', s)
      else if \<not> regex_test urlPattern (the (body_link body))
      then (SendStatus 400 ''Please provide a valid URL for the agent link.'', s)
      else
        (let oid = originalAgentId body;
             (lastID, s1) = insert_agent now (the (body_name body)) (the (body_description body))
                              (the (body_category body)) (the (body_link body)) (lineage oid) s;
             s2 = s1\<lparr>console := console s1 @ [AgentAdded lastID]\<rparr>
         in (Redirect ''/browse'',
             case lineage oid of None \<Rightarrow> s2 | Some p \<Rightarrow> update_fork_count p s2)))"

section \<open>The browse query\<close>

text \<open>
  SQLite's \<open>LIKE\<close>: \<open>%\<close> stands for any run of characters, \<open>_\<close> for any one character,
  and every other character of the pattern matches itself up to the case of ASCII letters.
\<close>

definition lower :: "char \<Rightarrow> char" where
  "lower c = (let n = (of_char c :: nat) in if 65 \<le> n \<and> n \<le> 90 then char_of (n + 32) else c)"

fun like :: "string \<Rightarrow> string \<Rightarrow> bool" where
  "like [] [] = True"
| "like [] (c # cs) = False"
| "like (p # ps) [] = (p = CHR ''%'' \<and> like ps [])"
| "like (p # ps) (c # cs) =
     (if p = CHR ''%'' then like ps (c # cs) \<or> like (p # ps) cs
      else (p = CHR ''_'' \<or> lower p = lower c) \<and> like ps cs)"

text \<open>
  The \<open>WHERE\<close> clause that the handler assembles: the category test when \<open>category\<close> is
  truthy and not \<open>all\<close>, the two \<open>LIKE\<close> tests when \<open>search\<close> is truthy, joined by \<open>AND\<close>.
\<close>

definition whereClause :: "field \<Rightarrow> field \<Rightarrow> agents_row \<Rightarrow> bool" where
  "whereClause category search a =
     ((if truthy category \<and> category \<noteq> Some ''all'' then a_category a = the category else True) \<and>
      (if truthy search
       then like (''%'' @ the search @ ''%'') (a_name a) \<or>
            like (''%'' @ the search @ ''%'') (a_description a)
       else True))"

text \<open>A \<open>LEFT JOIN\<close> keeps a row without a partner, paired with null.\<close>

definition left_join :: "('b \<Rightarrow> bool) \<Rightarrow> 'b list \<Rightarrow> 'b option list" where
  "left_join on rows = (case filter on rows of [] \<Rightarrow> [None] | ys \<Rightarrow> map Some ys)"

text \<open>
  The rows that the four joins produce for one agent: one for every combination of a
  matching user, rating and tag.
\<close>

definition joined ::
  "app_state \<Rightarrow> agents_row \<Rightarrow> (users_row option \<times> ratings_row option \<times> tags_row option) list" where
  "joined s a =
     [(u, r, t).
        u \<leftarrow> left_join (\<lambda>u. a_creator_wallet a = Some (u_wallet_address u)) (users s),
        r \<leftarrow> left_join (\<lambda>r. r_agent_id r = a_id a) (ratings s),
        atag \<leftarrow> left_join (\<lambda>x. at_agent_id x = a_id a) (agent_tags s),
        t \<leftarrow> (case atag of None \<Rightarrow> [None]
                         | Some x \<Rightarrow> left_join (\<lambda>t. t_id t = at_tag_id x) (tags s))]"

record view_row = agents_row +
  avg_rating :: rat
  rating_count :: nat
  tags_concat :: "string option"

definition join_with :: "string \<Rightarrow> string list \<Rightarrow> string" where
  "join_with sep xs = (case xs of [] \<Rightarrow> [] | x # ys \<Rightarrow> x @ concat (map (\<lambda>y. sep @ y) ys))"

text \<open>
  \<open>GROUP BY a.id\<close> makes one group of the joined rows of each agent. \<open>COUNT(r.id)\<close>
  counts the joined rows with a rating, \<open>AVG(r.stars)\<close> is the mean over the same rows (null,
  replaced by 0, when there is none), \<open>GROUP_CONCAT(t.name)\<close> joins the tag names of the
  joined rows with commas (null when there is none), and \<open>creator_wallet\<close> is the wallet
  address of the joined user. The mean is an exact rational number.
\<close>

definition group_row :: "app_state \<Rightarrow> agents_row \<Rightarrow> view_row" where
  "group_row s a =
     (let js = joined s a;
          stars = [r_stars r. (u, Some r, t) \<leftarrow> js];
          names = [t_name t. (u, r, Some t) \<leftarrow> js]
      in agents_row.extend
           (a\<lparr>a_creator_wallet := (case js of (Some u, r, t) # rest \<Rightarrow> Some (u_wallet_address u)
                                             | _ \<Rightarrow> None)\<rparr>)
           (view_row.fields
              (if stars = [] then 0 else of_int (sum_list stars) / of_nat (length stars))
              (length stars)
              (if names = [] then None else Some (join_with '','' names))))"

text \<open>
  \<open>ORDER BY ... DESC\<close>, as a stable sort on the negated key: rows with equal keys stay
  in the order of the table, where SQL leaves their order open.
\<close>

definition trending_score :: "view_row \<Rightarrow> rat" where
  "trending_score v =
     of_int (a_fork_count v) * (7 / 10) + avg_rating v * of_nat (rating_count v) * (3 / 10)"

definition orderClause :: "field \<Rightarrow> view_row list \<Rightarrow> view_row list" where
  "orderClause sortBy rows =
     (if sortBy = Some ''rating''
      then sort_key (\<lambda>v. (- avg_rating v, - int (rating_count v))) rows
      else if sortBy = Some ''forks'' then sort_key (\<lambda>v. - a_fork_count v) rows
      else if sortBy = Some ''trending'' then sort_key (\<lambda>v. - trending_score v) rows
      else sort_key (\<lambda>v. - int (a_created_at v)) rows)"

text \<open>\<open>GET /browse\<close>: the rows that \<open>db.all\<close> hands to the page.\<close>

definition browse :: "app_state \<Rightarrow> field \<Rightarrow> field \<Rightarrow> field \<Rightarrow> view_row list" where
  "browse s category search sortBy =
     orderClause sortBy (map (group_row s) (filter (whereClause category search) (agents s)))"

section \<open>Notions used in the statements\<close>

text \<open>The two checks of \<open>POST /submit\<close>: the four required fields and the link pattern.\<close>

definition passes_validation :: "submit_body \<Rightarrow> bool" where
  "passes_validation body =
     (truthy (body_name body) \<and> truthy (body_description body) \<and>
      truthy (body_category body) \<and> truthy (body_link body) \<and>
      regex_test urlPattern (the (body_link body)))"

text \<open>The row that the \<open>INSERT\<close> of \<open>POST /submit\<close> writes, and the effect of \<open>n\<close> fork-count updates on a row.\<close>

definition new_agent :: "nat \<Rightarrow> submit_body \<Rightarrow> int option \<Rightarrow> app_state \<Rightarrow> agents_row" where
  "new_agent now body original s =
     \<lparr>a_id = next_rowid (agents_seq s) (map a_id (agents s)),
      a_name = the (body_name body), a_description = the (body_description body),
      a_category = the (body_category body), a_link = body_link body, a_ipfs_hash = None,
      a_creator_wallet = None, a_original_agent_id = original, a_fork_count = 0,
      a_is_premium = 0, a_created_at = now\<rparr>"

definition add_forks :: "int \<Rightarrow> int \<Rightarrow> agents_row \<Rightarrow> agents_row" where
  "add_forks i n a = (if a_id a = i then a\<lparr>a_fork_count := a_fork_count a + n\<rparr> else a)"

text \<open>
  \<open>id INTEGER PRIMARY KEY AUTOINCREMENT\<close> on \<open>agents\<close>: the ids are distinct and positive.
\<close>

definition primary_key_ok :: "app_state \<Rightarrow> bool" where
  "primary_key_ok s = (distinct (map a_id (agents s)) \<and> list_all (\<lambda>a. 0 < a_id a) (agents s))"

text \<open>
  The fork-count invariant: the stored \<open>fork_count\<close> of every agent is the number of
  rows whose \<open>original_agent_id\<close> is its id.
\<close>

definition forks_of :: "app_state \<Rightarrow> int \<Rightarrow> nat" where
  "forks_of s i = length (filter (\<lambda>b. a_original_agent_id b = Some i) (agents s))"

definition fork_count_inv :: "app_state \<Rightarrow> bool" where
  "fork_count_inv s = list_all (\<lambda>a. a_fork_count a = int (forks_of s (a_id a))) (agents s)"

text \<open>
  The requests that change the state, each with the clock value and the session header
  it arrives with, and the states that sequences of them reach from the empty database.
  \<open>lineage_known\<close> says of a submission that its lineage pointer, when there is one,
  does not exceed the id that the new row receives; this holds in particular when it
  is the id of an existing agent.
\<close>

datatype request =
    Login nat string login_body
  | Logout field
  | Rate nat field rate_body
  | Submit nat field submit_body

fun handle :: "request \<Rightarrow> app_state \<Rightarrow> response \<times> app_state" where
  "handle (Login now sessionId body) s = login now sessionId body s"
| "handle (Logout sid) s = logout sid s"
| "handle (Rate now sid body) s = rate now (checkSession s sid) body s"
| "handle (Submit now sid body) s = submit now (checkSession s sid) body s"

fun lineage_known :: "app_state \<Rightarrow> request \<Rightarrow> bool" where
  "lineage_known s (Submit now sid body) =
     (case lineage (originalAgentId body) of
        None \<Rightarrow> True
      | Some p \<Rightarrow> p \<le> next_rowid (agents_seq s) (map a_id (agents s)))"
| "lineage_known s req = True"

inductive reachable :: "app_state \<Rightarrow> bool" where
  init: "reachable init_state"
| step: "reachable s \<Longrightarrow> lineage_known s req \<Longrightarrow> reachable (snd (handle req s))"

text \<open>The invariant that the proof of the fork-count invariant carries along.\<close>

definition lineage_inv :: "app_state \<Rightarrow> bool" where
  "lineage_inv s =
     (distinct (map a_id (agents s)) \<and>
      list_all (\<lambda>a. case a_original_agent_id a of None \<Rightarrow> True
                   | Some p \<Rightarrow> p < next_rowid (agents_seq s) (map a_id (agents s))) (agents s) \<and>
      fork_count_inv s)"

section \<open>Concrete requests and states\<close>

definition rate_stars_fraction :: rate_body where
  "rate_stars_fraction = \<lparr>body_agent_id = Some ''1'', body_stars = Some ''3.5'', body_comment = None\<rparr>"

definition rate_stars_six :: rate_body where
  "rate_stars_six = \<lparr>body_agent_id = Some ''1'', body_stars = Some ''6'', body_comment = None\<rparr>"

definition submit_bot1 :: submit_body where
  "submit_bot1 = \<lparr>body_name = Some ''Bot1'', body_description = Some ''d'',
     body_category = Some ''Other'', body_link = Some ''http://x.com'', body_ipfs_hash = None,
     body_tags = None, body_is_premium = None, body_original_agent_id = None\<rparr>"

definition submit_premium :: submit_body where
  "submit_premium = submit_bot1\<lparr>body_ipfs_hash := Some ''QmHash'', body_tags := Some ''ai,bot'',
     body_is_premium := Some ''on''\<rparr>"

definition submit_fork_of :: "string \<Rightarrow> submit_body" where
  "submit_fork_of i = submit_bot1\<lparr>body_name := Some ''Fork of Bot1'', body_original_agent_id := Some i\<rparr>"

definition login_abc :: login_body where
  "login_abc = \<lparr>walletAddress = Some ''0xabc'', signature = Some ''mock-signature''\<rparr>"

definition state_logged_in :: app_state where
  "state_logged_in = snd (login 1 ''tok'' login_abc init_state)"

definition state_one_agent :: app_state where
  "state_one_agent =
     snd (submit 7 (checkSession state_logged_in (Some ''tok'')) submit_premium state_logged_in)"

definition bot1_row :: agents_row where
  "bot1_row = \<lparr>a_id = 1, a_name = ''Bot1'', a_description = ''d'', a_category = ''Other'',
     a_link = Some ''http://x.com'', a_ipfs_hash = None, a_creator_wallet = None,
     a_original_agent_id = None, a_fork_count = 0, a_is_premium = 0, a_created_at = 7\<rparr>"

definition rate_five :: rate_body where
  "rate_five = \<lparr>body_agent_id = Some ''1'', body_stars = Some ''5'', body_comment = None\<rparr>"

definition state_rated_twice :: app_state where
  "state_rated_twice =
     snd (rate 10 (checkSession state_one_agent (Some ''tok'')) rate_five
       (snd (rate 9 (checkSession state_one_agent (Some ''tok'')) rate_five state_one_agent)))"

definition state_agency_user :: app_state where
  "state_agency_user = init_state\<lparr>users := [\<lparr>u_id = 1, u_wallet_address = ''0xabc'',
     u_subscription_tier = ''agency'', u_lens_handle = Some ''abc.lens'',
     u_farcaster_handle = Some ''abc'', u_created_at = 1, u_last_login = 1\<rparr>], users_seq := 1\<rparr>"

definition state_dangling :: app_state where
  "state_dangling = snd (handle (Submit 1 None (submit_fork_of ''2'')) init_state)"

definition state_dangling_then_plain :: app_state where
  "state_dangling_then_plain = snd (handle (Submit 2 None submit_bot1) state_dangling)"

definition state_forked :: app_state where
  "state_forked =
     snd (handle (Submit 8 None (submit_fork_of ''1''))
       (snd (handle (Submit 7 None submit_bot1) init_state)))"

definition rate_agent2_three :: rate_body where
  "rate_agent2_three = \<lparr>body_agent_id = Some ''2'', body_stars = Some ''3'', body_comment = Some ''fine''\<rparr>"

definition state_two_rated :: app_state where
  "state_two_rated =
     snd (handle (Rate 11 None rate_agent2_three) (snd (handle (Rate 10 None rate_five) state_forked)))"

definition state_tagged :: app_state where
  "state_tagged = state_rated_twice
     \<lparr>tags := [\<lparr>t_id = 1, t_name = ''ai'', t_created_at = 3\<rparr>,
               \<lparr>t_id = 2, t_name = ''bot'', t_created_at = 3\<rparr>],
      agent_tags := [\<lparr>at_agent_id = 1, at_tag_id = 1\<rparr>, \<lparr>at_agent_id = 1, at_tag_id = 2\<rparr>]\<rparr>"

section \<open>Evaluating \<open>parseInt\<close>\<close>

lemma parseInt_1: "parseInt ''1'' = Num 1"
  by code_simp

lemma parseInt_6: "parseInt ''6'' = Num 6"
  by code_simp

lemma parseInt_0: "parseInt ''0'' = Num 0"
  by code_simp

lemma parseInt_2: "parseInt ''2'' = Num 2"
  by code_simp

lemma parseInt_5: "parseInt ''5'' = Num 5"
  by code_simp

lemma parseInt_fraction: "parseInt ''3.5'' = Num 3"
  by code_simp

section \<open>The matcher decides the language\<close>

lemma nullable_lang: "nullable r \<longleftrightarrow> [] \<in> lang r"
  by (induction r) (auto intro: star_empty)

lemma star_cons_split:
  assumes "x \<in> star A" and "x = c # w"
  shows "\<exists>u v. w = u @ v \<and> c # u \<in> A \<and> v \<in> star A"
  using assms
proof (induction rule: star.induct)
  case star_empty
  then show ?case by simp
next
  case (star_step u v)
  show ?case
  proof (cases u)
    case Nil
    then show ?thesis using star_step by simp
  next
    case (Cons d ds)
    then have "w = ds @ v" "c # ds \<in> A"
      using star_step by auto
    then show ?thesis using star_step.hyps(2) by blast
  qed
qed

lemma star_cons: "c # w \<in> star A \<longleftrightarrow> (\<exists>u v. w = u @ v \<and> c # u \<in> A \<and> v \<in> star A)"
proof
  assume "c # w \<in> star A"
  then show "\<exists>u v. w = u @ v \<and> c # u \<in> A \<and> v \<in> star A"
    by (rule star_cons_split) simp
next
  assume "\<exists>u v. w = u @ v \<and> c # u \<in> A \<and> v \<in> star A"
  then obtain u v where "w = u @ v" "c # u \<in> A" "v \<in> star A" by blast
  then show "c # w \<in> star A"
    using star_step [of "c # u" A v] by simp
qed

lemma seq_cons:
  "(\<exists>u v. c # w = u @ v \<and> u \<in> L1 \<and> v \<in> L2) \<longleftrightarrow>
   ([] \<in> L1 \<and> c # w \<in> L2) \<or> (\<exists>u v. w = u @ v \<and> c # u \<in> L1 \<and> v \<in> L2)"
proof
  assume "\<exists>u v. c # w = u @ v \<and> u \<in> L1 \<and> v \<in> L2"
  then obtain u v where uv: "c # w = u @ v" "u \<in> L1" "v \<in> L2" by blast
  show "([] \<in> L1 \<and> c # w \<in> L2) \<or> (\<exists>u v. w = u @ v \<and> c # u \<in> L1 \<and> v \<in> L2)"
  proof (cases u)
    case Nil
    then show ?thesis using uv by simp
  next
    case (Cons d ds)
    then have "w = ds @ v" "c # ds \<in> L1" using uv by auto
    then show ?thesis using uv(3) by blast
  qed
next
  assume "([] \<in> L1 \<and> c # w \<in> L2) \<or> (\<exists>u v. w = u @ v \<and> c # u \<in> L1 \<and> v \<in> L2)"
  then show "\<exists>u v. c # w = u @ v \<and> u \<in> L1 \<and> v \<in> L2"
  proof
    assume "[] \<in> L1 \<and> c # w \<in> L2"
    then have "c # w = [] @ (c # w) \<and> [] \<in> L1 \<and> c # w \<in> L2" by simp
    then show ?thesis by blast
  next
    assume "\<exists>u v. w = u @ v \<and> c # u \<in> L1 \<and> v \<in> L2"
    then obtain u v where "w = u @ v" "c # u \<in> L1" "v \<in> L2" by blast
    then have "c # w = (c # u) @ v \<and> c # u \<in> L1 \<and> v \<in> L2" by simp
    then show ?thesis by blast
  qed
qed

lemma deriv_lang: "w \<in> lang (deriv c r) \<longleftrightarrow> c # w \<in> lang r"
proof (induction r arbitrary: w)
  case (Seq r1 r2)
  have "c # w \<in> lang (Seq r1 r2) \<longleftrightarrow> (\<exists>u v. c # w = u @ v \<and> u \<in> lang r1 \<and> v \<in> lang r2)"
    by auto
  also have "\<dots> \<longleftrightarrow> ([] \<in> lang r1 \<and> c # w \<in> lang r2) \<or>
                (\<exists>u v. w = u @ v \<and> c # u \<in> lang r1 \<and> v \<in> lang r2)"
    by (rule seq_cons)
  also have "\<dots> \<longleftrightarrow> w \<in> lang (deriv c (Seq r1 r2))"
    using Seq by (auto simp add: nullable_lang)
  finally show ?case by simp
next
  case (Star r)
  have "w \<in> lang (deriv c (Star r)) \<longleftrightarrow> (\<exists>u v. w = u @ v \<and> c # u \<in> lang r \<and> v \<in> star (lang r))"
    using Star by auto
  then show ?case by (simp add: star_cons)
qed auto

lemma regex_test_lang: "regex_test r str \<longleftrightarrow> str \<in> lang r"
proof -
  have "nullable (foldl (\<lambda>r' c. deriv c r') r str) \<longleftrightarrow> str \<in> lang r"
    by (induction str arbitrary: r) (simp_all add: nullable_lang deriv_lang)
  then show ?thesis by (simp add: regex_test_def)
qed

section \<open>Rating validation\<close>

text \<open>
  C5, as stated, fails: \<open>parseInt\<close> reads the integer prefix of \<open>3.5\<close>, so a rating whose
  stars field is not an integer is accepted and stored with 3 stars.
\<close>

theorem rate_fraction_accepted:
  "ratings (snd (rate 3 None rate_stars_fraction init_state)) =
     [\<lparr>r_id = 1, r_agent_id = 1, r_wallet_address = None, r_stars = 3,
        r_comment = None, r_created_at = 3\<rparr>]"
  by (simp add: rate_def rate_stars_fraction_def toString_def parseInt_1 parseInt_fraction
        isNaN_def insert_rating_def init_state_def next_rowid_def truthy_def)

text \<open>
  C5, amended: when \<open>parseInt\<close> of the agent id is \<open>NaN\<close>, or \<open>parseInt\<close> of the stars is
  \<open>NaN\<close>, or the parsed stars are below 1 or above 5, the handler redirects to the agent
  page and leaves the whole state, the ratings table included, as it was.
\<close>

theorem rate_rejects:
  assumes "isNaN (parseInt (toString (body_agent_id body))) \<or>
           isNaN (parseInt (toString (body_stars body))) \<or>
           numval (parseInt (toString (body_stars body))) < 1 \<or>
           numval (parseInt (toString (body_stars body))) > 5"
  shows "rate now user body s = (Redirect (''/agent/'' @ toString (body_agent_id body)), s)"
  using assms by (auto simp add: rate_def Let_def)

theorem rate_rejects_witness:
  "numval (parseInt (toString (body_stars rate_stars_six))) > 5 \<and>
   rate 3 None rate_stars_six init_state = (Redirect ''/agent/1'', init_state)"
  using rate_rejects [of rate_stars_six 3 None init_state]
  by (simp add: rate_stars_six_def toString_def parseInt_6)

section \<open>Row ids\<close>

lemma fold_max_ge_seq: "seq \<le> fold max ids (seq :: int)"
  by (induction ids arbitrary: seq) (auto intro: order_trans [OF max.cobounded2])

lemma fold_max_ge_elem: "x \<in> set ids \<Longrightarrow> x \<le> fold max ids (seq :: int)"
proof (induction ids arbitrary: seq)
  case Nil
  then show ?case by simp
next
  case (Cons y ys)
  show ?case
  proof (cases "x = y")
    case True
    have "y \<le> max y seq" by simp
    also have "\<dots> \<le> fold max ys (max y seq)" by (rule fold_max_ge_seq)
    finally show ?thesis using True by simp
  next
    case False
    with Cons show ?thesis by simp
  qed
qed

lemma next_rowid_greater: "x \<in> set ids \<Longrightarrow> x < next_rowid seq ids"
  using fold_max_ge_elem [of x ids seq] by (simp add: next_rowid_def)

lemma next_rowid_fresh: "next_rowid seq ids \<notin> set ids"
  using next_rowid_greater [of "next_rowid seq ids" ids seq] by auto

section \<open>Agent submission\<close>

lemma submit_valid:
  assumes "passes_validation body"
  shows "submit now user body s =
     (Redirect ''/browse'',
      case lineage (originalAgentId body) of
        None \<Rightarrow> s\<lparr>agents := agents s @ [new_agent now body None s],
                  agents_seq := next_rowid (agents_seq s) (map a_id (agents s)),
                  console := console s @ [AgentAdded (next_rowid (agents_seq s) (map a_id (agents s)))]\<rparr>
      | Some p \<Rightarrow> s\<lparr>agents := map (add_forks p 1) (agents s @ [new_agent now body (Some p) s]),
                  agents_seq := next_rowid (agents_seq s) (map a_id (agents s)),
                  console := console s @ [AgentAdded (next_rowid (agents_seq s) (map a_id (agents s)))]\<rparr>)"
proof -
  have link: "Some (the (body_link body)) = body_link body"
    using assms by (auto simp add: passes_validation_def truthy_def split: option.splits)
  have af: "(\<lambda>a. if a_id a = p then a\<lparr>a_fork_count := a_fork_count a + 1\<rparr> else a) = add_forks p 1" for p
    by (auto simp add: add_forks_def fun_eq_iff)
  show ?thesis
    using assms
    by (simp add: submit_def passes_validation_def insert_agent_def Let_def new_agent_def
          update_fork_count_def link af split: option.splits)
qed

lemma url_x_com: "regex_test urlPattern ''http://x.com''"
  by code_simp

lemma passes_bot1: "passes_validation submit_bot1"
  by (simp add: passes_validation_def submit_bot1_def truthy_def url_x_com)

lemma passes_premium: "passes_validation submit_premium"
  by (simp add: passes_validation_def submit_premium_def submit_bot1_def truthy_def url_x_com)

lemma passes_fork_of: "passes_validation (submit_fork_of i)"
  by (simp add: passes_validation_def submit_fork_of_def submit_bot1_def truthy_def url_x_com)

lemma a_id_add_forks [simp]: "a_id (add_forks i n a) = a_id a"
  by (simp add: add_forks_def)

lemma add_forks_other: "a_id a \<noteq> i \<Longrightarrow> add_forks i n a = a"
  by (simp add: add_forks_def)

lemma add_forks_twice: "add_forks i 1 (add_forks i 1 a) = add_forks i 2 a"
  by (simp add: add_forks_def)

lemma a_id_new_agent [simp]:
  "a_id (new_agent now body original s) = next_rowid (agents_seq s) (map a_id (agents s))"
  by (simp add: new_agent_def)

lemma new_agent_not_existing: "a \<in> set (agents s) \<Longrightarrow> a_id (new_agent now body original s) \<noteq> a_id a"
  using next_rowid_greater [of "a_id a" "map a_id (agents s)" "agents_seq s"] by auto

lemma find_by_id:
  "distinct (map a_id xs) \<Longrightarrow> a \<in> set xs \<Longrightarrow> find (\<lambda>b. a_id b = a_id a) xs = Some a"
  by (induction xs) (auto simp add: image_iff)

lemma find_map_add_forks:
  "find (\<lambda>b. a_id b = j) (map (add_forks i n) xs) = map_option (add_forks i n) (find (\<lambda>b. a_id b = j) xs)"
  by (induction xs) auto

lemma find_append_Some: "find P xs = Some x \<Longrightarrow> find P (xs @ ys) = Some x"
  by (induction xs) (auto split: if_splits)

lemma submit_fork_agents:
  assumes "passes_validation body" and "lineage (originalAgentId body) = Some p"
      and "a \<in> set (agents s)" and "a_id a = p"
  shows "agents (snd (submit now user body s)) =
           map (add_forks p 1) (agents s) @ [new_agent now body (Some p) s]"
  using new_agent_not_existing [OF assms(3), of now body "Some p"] assms(4)
  by (simp add: submit_valid [OF assms(1)] assms(2) add_forks_other)

lemma users_state_logged_in:
  "users state_logged_in = [\<lparr>u_id = 1, u_wallet_address = ''0xabc'', u_subscription_tier = ''creator'',
     u_lens_handle = None, u_farcaster_handle = None, u_created_at = 1, u_last_login = 1\<rparr>]"
  by (simp add: state_logged_in_def login_def login_abc_def truthy_def insert_or_replace_user_def
        init_state_def next_rowid_def Let_def)

lemma session_state_logged_in: "checkSession state_logged_in (Some ''tok'') = Some ''0xabc''"
  by (simp add: checkSession_def state_logged_in_def login_def login_abc_def truthy_def
        insert_or_replace_user_def init_state_def Let_def)

lemma agents_state_logged_in: "agents state_logged_in = []" "agents_seq state_logged_in = 0"
  by (simp_all add: state_logged_in_def login_def login_abc_def truthy_def
        insert_or_replace_user_def init_state_def Let_def)

lemma lineage_premium: "lineage (originalAgentId submit_premium) = None"
  by (simp add: lineage_def originalAgentId_def submit_premium_def submit_bot1_def truthy_def)

lemma agents_state_one_agent: "agents state_one_agent = [bot1_row]"
proof -
  have "agents state_one_agent = agents state_logged_in @ [new_agent 7 submit_premium None state_logged_in]"
    by (simp add: state_one_agent_def submit_valid [OF passes_premium] lineage_premium)
  then show ?thesis
    by (simp add: agents_state_logged_in new_agent_def next_rowid_def bot1_row_def
          submit_premium_def submit_bot1_def)
qed

text \<open>
  What every accepted submission stores: the row found under the new id has the name,
  description, category, link and lineage pointer of the request, and always a null
  content hash, a null creator wallet and premium flag 0.
\<close>

lemma find_fresh_last:
  "\<forall>y \<in> set xs. \<not> P y \<Longrightarrow> P x \<Longrightarrow> find P (xs @ [x]) = Some x"
  by (induction xs) auto

lemma submit_row_retrievable:
  assumes "passes_validation body"
  shows "\<exists>row. get_agent (snd (submit now user body s))
                  (next_rowid (agents_seq s) (map a_id (agents s))) = Some row \<and>
               a_name row = the (body_name body) \<and>
               a_description row = the (body_description body) \<and>
               a_category row = the (body_category body) \<and>
               a_link row = body_link body \<and>
               a_original_agent_id row = lineage (originalAgentId body) \<and>
               a_ipfs_hash row = None \<and> a_creator_wallet row = None \<and> a_is_premium row = 0"
proof -
  let ?new = "next_rowid (agents_seq s) (map a_id (agents s))"
  have fresh: "\<forall>a \<in> set (agents s). a_id a \<noteq> ?new"
    using next_rowid_greater [of _ "map a_id (agents s)" "agents_seq s"] by fastforce
  show ?thesis
  proof (cases "lineage (originalAgentId body)")
    case None
    have "get_agent (snd (submit now user body s)) ?new = Some (new_agent now body None s)"
      using fresh by (simp add: get_agent_def submit_valid [OF assms] None find_fresh_last)
    then show ?thesis by (simp add: None new_agent_def)
  next
    case (Some p)
    have "get_agent (snd (submit now user body s)) ?new =
            Some (add_forks p 1 (new_agent now body (Some p) s))"
      using fresh
      by (simp add: get_agent_def submit_valid [OF assms] Some find_map_add_forks find_fresh_last
            del: map_append)
    then show ?thesis by (simp add: Some new_agent_def add_forks_def)
  qed
qed

text \<open>
  C1 fails on the code. A logged-in wallet \<open>0xabc\<close> submits a valid agent with the premium
  flag set and a content hash; the row then retrieved by its id has premium flag 0, no
  content hash and no creator wallet.
\<close>

theorem submit_drops_premium_hash_creator:
  "body_is_premium submit_premium = Some ''on'' \<and>
   body_ipfs_hash submit_premium = Some ''QmHash'' \<and>
   checkSession state_logged_in (Some ''tok'') = Some ''0xabc'' \<and>
   get_agent state_one_agent 1 =
     Some \<lparr>a_id = 1, a_name = ''Bot1'', a_description = ''d'', a_category = ''Other'',
       a_link = Some ''http://x.com'', a_ipfs_hash = None, a_creator_wallet = None,
       a_original_agent_id = None, a_fork_count = 0, a_is_premium = 0, a_created_at = 7\<rparr>"
  by (simp add: get_agent_def agents_state_one_agent bot1_row_def session_state_logged_in
        submit_premium_def submit_bot1_def)

text \<open>
  C10: a submission that passes validation and whose \<open>original_agent_id\<close> is absent, empty
  or parsed by \<open>parseInt\<close> to \<open>NaN\<close> or 0 is answered with the redirect to \<open>/browse\<close>; the
  agents table is the old one followed by one new row with a null lineage pointer and
  fork count 0, so no fork count of an existing agent changes, and nothing but the
  id of the new agent is logged.
\<close>

theorem submit_without_lineage:
  assumes "passes_validation body"
      and "\<not> truthy (body_original_agent_id body) \<or>
           \<not> truthy_num (parseInt (the (body_original_agent_id body)))"
  shows "fst (submit now user body s) = Redirect ''/browse'' \<and>
         agents (snd (submit now user body s)) = agents s @ [new_agent now body None s] \<and>
         a_original_agent_id (new_agent now body None s) = None \<and>
         a_fork_count (new_agent now body None s) = 0 \<and>
         console (snd (submit now user body s)) =
           console s @ [AgentAdded (a_id (new_agent now body None s))]"
proof -
  have "lineage (originalAgentId body) = None"
    using assms(2) by (auto simp add: lineage_def originalAgentId_def)
  then show ?thesis
    by (simp add: submit_valid [OF assms(1)] new_agent_def)
qed

theorem submit_without_lineage_witness:
  "passes_validation (submit_fork_of ''0'') \<and>
   \<not> truthy_num (parseInt (the (body_original_agent_id (submit_fork_of ''0'')))) \<and>
   fst (submit 5 None (submit_fork_of ''0'') init_state) = Redirect ''/browse'' \<and>
   agents (snd (submit 5 None (submit_fork_of ''0'') init_state)) =
     [\<lparr>a_id = 1, a_name = ''Fork of Bot1'', a_description = ''d'', a_category = ''Other'',
       a_link = Some ''http://x.com'', a_ipfs_hash = None, a_creator_wallet = None,
       a_original_agent_id = None, a_fork_count = 0, a_is_premium = 0, a_created_at = 5\<rparr>]"
proof -
  have h: "\<not> truthy (body_original_agent_id (submit_fork_of ''0'')) \<or>
           \<not> truthy_num (parseInt (the (body_original_agent_id (submit_fork_of ''0''))))"
    by (simp add: submit_fork_of_def parseInt_0 truthy_num_def)
  show ?thesis
    using submit_without_lineage [OF passes_fork_of h, of 5 None init_state] passes_fork_of [of "''0''"]
    by (simp add: new_agent_def init_state_def next_rowid_def submit_fork_of_def submit_bot1_def
          parseInt_0 truthy_num_def)
qed

text \<open>
  C4: let agent \<open>A\<close> exist in a table with distinct positive ids, and let two submissions
  pass validation with an \<open>original_agent_id\<close> that parses to the id of \<open>A\<close>. After both, \<open>A\<close>
  has its fork count increased by 2, every other agent that existed is unchanged, and
  the table has exactly two more rows, with different ids and with the id of \<open>A\<close> as
  lineage pointer.
\<close>

theorem fork_twice:
  assumes pk: "primary_key_ok s" and A: "A \<in> set (agents s)"
      and v1: "passes_validation b1" and v2: "passes_validation b2"
      and o1: "truthy (body_original_agent_id b1)"
              "parseInt (the (body_original_agent_id b1)) = Num (a_id A)"
      and o2: "truthy (body_original_agent_id b2)"
              "parseInt (the (body_original_agent_id b2)) = Num (a_id A)"
      and s1: "s1 = snd (submit t1 u1 b1 s)" and s2: "s2 = snd (submit t2 u2 b2 s1)"
  shows "get_agent s2 (a_id A) = Some (A\<lparr>a_fork_count := a_fork_count A + 2\<rparr>) \<and>
         (\<forall>B \<in> set (agents s). a_id B \<noteq> a_id A \<longrightarrow> get_agent s2 (a_id B) = Some B) \<and>
         agents s2 = map (add_forks (a_id A) 2) (agents s) @
                       [new_agent t1 b1 (Some (a_id A)) s, new_agent t2 b2 (Some (a_id A)) s1] \<and>
         a_original_agent_id (new_agent t1 b1 (Some (a_id A)) s) = Some (a_id A) \<and>
         a_original_agent_id (new_agent t2 b2 (Some (a_id A)) s1) = Some (a_id A) \<and>
         a_id (new_agent t1 b1 (Some (a_id A)) s) \<noteq> a_id (new_agent t2 b2 (Some (a_id A)) s1)"
proof -
  let ?p = "a_id A"
  let ?n1 = "new_agent t1 b1 (Some ?p) s"
  let ?n2 = "new_agent t2 b2 (Some ?p) s1"
  have pos: "?p \<noteq> 0"
    using pk A by (auto simp add: primary_key_ok_def list_all_iff)
  have l1: "lineage (originalAgentId b1) = Some ?p"
    using o1 pos by (simp add: lineage_def originalAgentId_def truthy_num_def)
  have l2: "lineage (originalAgentId b2) = Some ?p"
    using o2 pos by (simp add: lineage_def originalAgentId_def truthy_num_def)
  have ag1: "agents s1 = map (add_forks ?p 1) (agents s) @ [?n1]"
    unfolding s1 by (rule submit_fork_agents [OF v1 l1 A refl])
  have A1: "add_forks ?p 1 A \<in> set (agents s1)"
    using A by (simp add: ag1)
  have n1p: "a_id ?n1 \<noteq> ?p"
    by (rule new_agent_not_existing [OF A])
  have "agents s2 = map (add_forks ?p 1) (agents s1) @ [?n2]"
    unfolding s2 by (rule submit_fork_agents [OF v2 l2 A1]) simp
  then have ag2: "agents s2 = map (add_forks ?p 2) (agents s) @ [?n1, ?n2]"
    using n1p by (simp add: ag1 add_forks_twice add_forks_other o_def del: a_id_new_agent)
  have n1s1: "?n1 \<in> set (agents s1)"
    by (simp add: ag1)
  have ids: "a_id ?n1 \<noteq> a_id ?n2"
    using new_agent_not_existing [OF n1s1, of t2 b2 "Some ?p"] by (simp del: a_id_new_agent)
  have dist: "distinct (map a_id (agents s))"
    using pk by (simp add: primary_key_ok_def)
  have found: "get_agent s2 (a_id B) = Some (add_forks ?p 2 B)" if "B \<in> set (agents s)" for B
  proof -
    have "find (\<lambda>b. a_id b = a_id B) (map (add_forks ?p 2) (agents s)) = Some (add_forks ?p 2 B)"
      by (simp add: find_map_add_forks find_by_id [OF dist that])
    then show ?thesis
      by (simp add: get_agent_def ag2 find_append_Some del: a_id_new_agent)
  qed
  have c1: "get_agent s2 ?p = Some (A\<lparr>a_fork_count := a_fork_count A + 2\<rparr>)"
    using found [OF A] by (simp add: add_forks_def)
  have c2: "\<forall>B \<in> set (agents s). a_id B \<noteq> ?p \<longrightarrow> get_agent s2 (a_id B) = Some B"
    using found by (simp add: add_forks_other)
  show ?thesis
    using c1 c2 ag2 ids by (simp add: new_agent_def)
qed

theorem fork_twice_witness:
  "primary_key_ok state_one_agent \<and> bot1_row \<in> set (agents state_one_agent) \<and>
   get_agent (snd (submit 9 None (submit_fork_of ''1'')
                (snd (submit 8 None (submit_fork_of ''1'') state_one_agent)))) 1 =
     Some (bot1_row\<lparr>a_fork_count := 2\<rparr>)"
proof -
  have pk: "primary_key_ok state_one_agent"
    by (simp add: primary_key_ok_def agents_state_one_agent bot1_row_def)
  have A: "bot1_row \<in> set (agents state_one_agent)"
    by (simp add: agents_state_one_agent)
  have o: "truthy (body_original_agent_id (submit_fork_of ''1''))"
          "parseInt (the (body_original_agent_id (submit_fork_of ''1''))) = Num (a_id bot1_row)"
    by (simp_all add: submit_fork_of_def truthy_def parseInt_1 bot1_row_def)
  show ?thesis
    using fork_twice [OF pk A passes_fork_of passes_fork_of o o refl refl, of 9 None 8 None] pk A
    by (simp add: bot1_row_def)
qed

section \<open>Ratings of one wallet\<close>

lemma rate_accepts:
  assumes "parseInt (toString (body_agent_id body)) = Num a"
      and "parseInt (toString (body_stars body)) = Num n" and "1 \<le> n" and "n \<le> 5"
  shows "rate now user body s =
           (Redirect (''/agent/'' @ toString (body_agent_id body)),
            s\<lparr>ratings := ratings s @
                 [\<lparr>r_id = next_rowid (ratings_seq s) (map r_id (ratings s)), r_agent_id = a,
                   r_wallet_address = None, r_stars = n,
                   r_comment = (if truthy (body_comment body) then body_comment body else None),
                   r_created_at = now\<rparr>],
              ratings_seq := next_rowid (ratings_seq s) (map r_id (ratings s))\<rparr>)"
  using assms by (simp add: rate_def isNaN_def insert_rating_def Let_def)

lemma session_state_one_agent: "checkSession state_one_agent (Some ''tok'') = Some ''0xabc''"
proof -
  have "sessions state_one_agent = sessions state_logged_in"
    by (simp add: state_one_agent_def submit_valid [OF passes_premium] lineage_premium)
  then show ?thesis
    using session_state_logged_in by (auto simp add: checkSession_def split: if_splits)
qed

lemma ratings_state_one_agent: "ratings state_one_agent = []" "ratings_seq state_one_agent = 0"
  by (simp_all add: state_one_agent_def submit_valid [OF passes_premium] lineage_premium
        state_logged_in_def login_def login_abc_def truthy_def insert_or_replace_user_def
        init_state_def Let_def)

lemma ratings_state_rated_twice:
  "ratings state_rated_twice =
     [\<lparr>r_id = 1, r_agent_id = 1, r_wallet_address = None, r_stars = 5, r_comment = None,
        r_created_at = 9\<rparr>,
      \<lparr>r_id = 2, r_agent_id = 1, r_wallet_address = None, r_stars = 5, r_comment = None,
        r_created_at = 10\<rparr>]"
proof -
  have p: "parseInt (toString (body_agent_id rate_five)) = Num 1"
          "parseInt (toString (body_stars rate_five)) = Num 5"
    by (simp_all add: rate_five_def toString_def parseInt_1 parseInt_5)
  have c: "truthy (body_comment rate_five) = False"
    by (simp add: rate_five_def truthy_def)
  show ?thesis
    by (simp add: state_rated_twice_def rate_accepts [OF p] c ratings_state_one_agent next_rowid_def)
qed

text \<open>
  C2 fails on the code. The wallet \<open>0xabc\<close> is logged in and rates agent 1 twice. Both
  inserts succeed: the table holds two rows for agent 1, both with a null wallet
  address, and no row for the pair of agent 1 and \<open>0xabc\<close>.
\<close>

theorem second_rating_is_stored:
  "checkSession state_one_agent (Some ''tok'') = Some ''0xabc'' \<and>
   ratings state_rated_twice =
     [\<lparr>r_id = 1, r_agent_id = 1, r_wallet_address = None, r_stars = 5, r_comment = None,
        r_created_at = 9\<rparr>,
      \<lparr>r_id = 2, r_agent_id = 1, r_wallet_address = None, r_stars = 5, r_comment = None,
        r_created_at = 10\<rparr>] \<and>
   filter (\<lambda>r. r_agent_id r = 1 \<and> r_wallet_address r = Some ''0xabc'') (ratings state_rated_twice) = []"
  by (simp add: session_state_one_agent ratings_state_rated_twice)

section \<open>Login\<close>

text \<open>
  What every accepted login does to the users table: the rows of the wallet are removed
  and one row with a new id, the defaults and the time of the login is appended.
\<close>

lemma login_users:
  assumes "truthy (walletAddress body)"
  shows "users (snd (login now sessionId body s)) =
           filter (\<lambda>u. u_wallet_address u \<noteq> the (walletAddress body)) (users s) @
           [\<lparr>u_id = next_rowid (users_seq s) (map u_id (users s)),
             u_wallet_address = the (walletAddress body), u_subscription_tier = ''creator'',
             u_lens_handle = None, u_farcaster_handle = None,
             u_created_at = now, u_last_login = now\<rparr>]"
  using assms by (simp add: login_def insert_or_replace_user_def Let_def)

text \<open>
  C9 fails on the code. A second login of \<open>0xabc\<close> at time 20 deletes the row written at
  time 1 and inserts a row with a new id whose creation timestamp is 20; a row with
  tier \<open>agency\<close> and social handles comes back with tier \<open>creator\<close> and no handles.
\<close>

theorem login_replaces_user_row:
  "users state_logged_in =
     [\<lparr>u_id = 1, u_wallet_address = ''0xabc'', u_subscription_tier = ''creator'',
        u_lens_handle = None, u_farcaster_handle = None, u_created_at = 1, u_last_login = 1\<rparr>] \<and>
   users (snd (login 20 ''tok2'' login_abc state_logged_in)) =
     [\<lparr>u_id = 2, u_wallet_address = ''0xabc'', u_subscription_tier = ''creator'',
        u_lens_handle = None, u_farcaster_handle = None, u_created_at = 20, u_last_login = 20\<rparr>] \<and>
   users (snd (login 20 ''tok2'' login_abc state_agency_user)) =
     [\<lparr>u_id = 2, u_wallet_address = ''0xabc'', u_subscription_tier = ''creator'',
        u_lens_handle = None, u_farcaster_handle = None, u_created_at = 20, u_last_login = 20\<rparr>]"
  by (simp add: users_state_logged_in login_def login_abc_def truthy_def
        insert_or_replace_user_def next_rowid_def Let_def state_agency_user_def init_state_def
        state_logged_in_def)

section \<open>The fork-count invariant\<close>

lemma forks_of_add_forks:
  "length (filter (\<lambda>b. a_original_agent_id b = Some i) (map (add_forks p n) xs)) =
   length (filter (\<lambda>b. a_original_agent_id b = Some i) xs)"
  by (induction xs) (auto simp add: add_forks_def)

lemma fold_max_bounded: "\<forall>x \<in> set ids. x \<le> n \<Longrightarrow> fold max ids (n :: int) = n"
  by (induction ids) (auto simp add: max_def)

lemma next_rowid_after_insert:
  "next_rowid (next_rowid seq ids) (ids @ [next_rowid seq ids]) = next_rowid seq ids + 1"
proof -
  let ?n = "next_rowid seq ids"
  have "\<forall>x \<in> set ids. x \<le> ?n"
    using next_rowid_greater [of _ ids seq] by (auto intro: less_imp_le)
  then have "fold max ids ?n = ?n"
    by (rule fold_max_bounded)
  then show ?thesis by (simp add: next_rowid_def)
qed

lemma lineage_inv_init: "lineage_inv init_state"
  by (simp add: lineage_inv_def fork_count_inv_def init_state_def)

lemma lineage_inv_same_agents:
  assumes "lineage_inv s" and "agents s' = agents s" and "agents_seq s' = agents_seq s"
  shows "lineage_inv s'"
  using assms(1) unfolding lineage_inv_def fork_count_inv_def forks_of_def assms(2) assms(3) .

lemma login_agents: "agents (snd (login now sid body s)) = agents s"
  "agents_seq (snd (login now sid body s)) = agents_seq s"
  by (simp_all add: login_def insert_or_replace_user_def Let_def)

lemma logout_agents: "agents (snd (logout sid s)) = agents s"
  "agents_seq (snd (logout sid s)) = agents_seq s"
  by (simp_all add: logout_def)

lemma rate_agents: "agents (snd (rate now user body s)) = agents s"
  "agents_seq (snd (rate now user body s)) = agents_seq s"
  by (simp_all add: rate_def insert_rating_def Let_def split: sum.splits db_error.splits)

lemma submit_invalid: "\<not> passes_validation body \<Longrightarrow> submit now user body s = (fst (submit now user body s), s)"
  by (auto simp add: submit_def passes_validation_def Let_def)

lemma no_forks_of_next:
  assumes "lineage_inv s"
  shows "filter (\<lambda>b. a_original_agent_id b = Some (next_rowid (agents_seq s) (map a_id (agents s)))) (agents s) = []"
  using assms by (auto simp add: lineage_inv_def list_all_iff filter_empty_conv)

lemma lineage_inv_submit:
  assumes inv: "lineage_inv s" and known: "lineage_known s (Submit now sid body)"
  shows "lineage_inv (snd (submit now user body s))"
proof (cases "passes_validation body")
  case False
  then show ?thesis using inv submit_invalid [of body now user s] by (metis snd_conv)
next
  case True
  let ?new = "next_rowid (agents_seq s) (map a_id (agents s))"
  let ?s' = "snd (submit now user body s)"
  have dist: "distinct (map a_id (agents s))"
    and ptr: "\<forall>a \<in> set (agents s). \<forall>p. a_original_agent_id a = Some p \<longrightarrow> p < ?new"
    and fc: "\<forall>a \<in> set (agents s). a_fork_count a = int (forks_of s (a_id a))"
    using inv by (auto simp add: lineage_inv_def fork_count_inv_def list_all_iff)
  have fresh: "?new \<notin> a_id ` set (agents s)"
    using next_rowid_fresh [of "agents_seq s" "map a_id (agents s)"] by simp
  have none: "forks_of s ?new = 0"
    using no_forks_of_next [OF inv] by (simp add: forks_of_def)
  show ?thesis
  proof (cases "lineage (originalAgentId body)")
    case None
    let ?n = "new_agent now body None s"
    have ag: "agents ?s' = agents s @ [?n]" and sq: "agents_seq ?s' = ?new"
      by (simp_all add: submit_valid [OF True] None)
    have nx: "next_rowid (agents_seq ?s') (map a_id (agents ?s')) = ?new + 1"
      by (simp add: ag sq next_rowid_after_insert)
    have fo: "forks_of ?s' i = forks_of s i" for i
      by (simp add: forks_of_def ag new_agent_def)
    have "distinct (map a_id (agents ?s'))"
      using dist fresh by (simp add: ag)
    moreover have "list_all (\<lambda>a. case a_original_agent_id a of None \<Rightarrow> True
                     | Some p \<Rightarrow> p < next_rowid (agents_seq ?s') (map a_id (agents ?s'))) (agents ?s')"
      unfolding nx using ptr by (auto simp add: ag list_all_iff new_agent_def split: option.splits)
    moreover have "fork_count_inv ?s'"
      unfolding fork_count_inv_def using fc none
      by (auto simp add: fo ag list_all_iff new_agent_def simp del: a_id_new_agent)
    ultimately show ?thesis by (simp add: lineage_inv_def)
  next
    case (Some p)
    let ?n = "new_agent now body (Some p) s"
    have pb: "p \<le> ?new"
      using known by (simp add: Some)
    have ag: "agents ?s' = map (add_forks p 1) (agents s @ [?n])" and sq: "agents_seq ?s' = ?new"
      by (simp_all add: submit_valid [OF True] Some)
    have ids: "map a_id (agents ?s') = map a_id (agents s) @ [?new]"
      by (simp add: ag o_def)
    have nx: "next_rowid (agents_seq ?s') (map a_id (agents ?s')) = ?new + 1"
      by (simp add: ids sq next_rowid_after_insert)
    have fo: "forks_of ?s' i = forks_of s i + (if p = i then 1 else 0)" for i
      unfolding forks_of_def ag forks_of_add_forks by (simp add: new_agent_def)
    have "distinct (map a_id (agents ?s'))"
      using dist fresh by (simp add: ids)
    moreover have "list_all (\<lambda>a. case a_original_agent_id a of None \<Rightarrow> True
                     | Some p \<Rightarrow> p < next_rowid (agents_seq ?s') (map a_id (agents ?s'))) (agents ?s')"
      unfolding nx using ptr pb
      by (auto simp add: ag list_all_iff new_agent_def add_forks_def split: option.splits)
    moreover have "fork_count_inv ?s'"
      unfolding fork_count_inv_def list_all_iff
    proof
      fix a' assume "a' \<in> set (agents ?s')"
      then obtain a where a: "a \<in> set (agents s @ [?n])" and a': "a' = add_forks p 1 a"
        by (auto simp add: ag)
      have "a_fork_count a = int (forks_of s (a_id a))"
        using a fc none by (auto simp add: new_agent_def)
      then show "a_fork_count a' = int (forks_of ?s' (a_id a'))"
        by (simp add: a' fo add_forks_def)
    qed
    ultimately show ?thesis by (simp add: lineage_inv_def)
  qed
qed

lemma lineage_inv_step:
  "lineage_inv s \<Longrightarrow> lineage_known s req \<Longrightarrow> lineage_inv (snd (handle req s))"
proof (cases req)
  case (Login now sid body)
  assume "lineage_inv s"
  then show ?thesis unfolding Login handle.simps
    by (rule lineage_inv_same_agents) (rule login_agents)+
next
  case (Logout sid)
  assume "lineage_inv s"
  then show ?thesis unfolding Logout handle.simps
    by (rule lineage_inv_same_agents) (rule logout_agents)+
next
  case (Rate now sid body)
  assume "lineage_inv s"
  then show ?thesis unfolding Rate handle.simps
    by (rule lineage_inv_same_agents) (rule rate_agents)+
next
  case (Submit now sid body)
  assume "lineage_inv s" and "lineage_known s req"
  then show ?thesis unfolding Submit handle.simps
    by (rule lineage_inv_submit)
qed

lemma submit_bot1_fields:
  "body_name submit_bot1 = Some ''Bot1''" "body_description submit_bot1 = Some ''d''"
  "body_category submit_bot1 = Some ''Other''" "body_link submit_bot1 = Some ''http://x.com''"
  "body_original_agent_id submit_bot1 = None"
  by (simp_all add: submit_bot1_def)

lemma submit_fork_of_fields:
  "body_name (submit_fork_of i) = Some ''Fork of Bot1''" "body_description (submit_fork_of i) = Some ''d''"
  "body_category (submit_fork_of i) = Some ''Other''" "body_link (submit_fork_of i) = Some ''http://x.com''"
  "body_original_agent_id (submit_fork_of i) = Some i"
  by (simp_all add: submit_fork_of_def submit_bot1_def)

lemma agents_init: "agents init_state = []" "agents_seq init_state = 0"
  by (simp_all add: init_state_def)

lemma lineage_fork_of_1: "lineage (originalAgentId (submit_fork_of ''1'')) = Some 1"
  by (simp add: lineage_def originalAgentId_def submit_fork_of_def truthy_def parseInt_1 truthy_num_def)

lemma lineage_fork_of_2: "lineage (originalAgentId (submit_fork_of ''2'')) = Some 2"
  by (simp add: lineage_def originalAgentId_def submit_fork_of_def truthy_def parseInt_2 truthy_num_def)

lemma lineage_bot1: "lineage (originalAgentId submit_bot1) = None"
  by (simp add: lineage_def originalAgentId_def submit_bot1_def truthy_def)

lemma agents_state_forked:
  "agents state_forked =
     [\<lparr>a_id = 1, a_name = ''Bot1'', a_description = ''d'', a_category = ''Other'',
        a_link = Some ''http://x.com'', a_ipfs_hash = None, a_creator_wallet = None,
        a_original_agent_id = None, a_fork_count = 1, a_is_premium = 0, a_created_at = 7\<rparr>,
      \<lparr>a_id = 2, a_name = ''Fork of Bot1'', a_description = ''d'', a_category = ''Other'',
        a_link = Some ''http://x.com'', a_ipfs_hash = None, a_creator_wallet = None,
        a_original_agent_id = Some 1, a_fork_count = 0, a_is_premium = 0, a_created_at = 8\<rparr>]"
proof -
  let ?s1 = "snd (submit 7 (checkSession init_state None) submit_bot1 init_state)"
  have s1: "agents ?s1 = [new_agent 7 submit_bot1 None init_state]" "agents_seq ?s1 = 1"
    by (simp_all add: submit_valid [OF passes_bot1] lineage_bot1 agents_init next_rowid_def)
  have "agents state_forked =
          map (add_forks 1 1) (agents ?s1 @ [new_agent 8 (submit_fork_of ''1'') (Some 1) ?s1])"
    by (simp add: state_forked_def submit_valid [OF passes_fork_of] lineage_fork_of_1)
  then show ?thesis
    by (simp add: s1 new_agent_def add_forks_def agents_init next_rowid_def submit_bot1_fields
          submit_fork_of_fields)
qed

lemma agents_state_dangling:
  "agents state_dangling =
     [\<lparr>a_id = 1, a_name = ''Fork of Bot1'', a_description = ''d'', a_category = ''Other'',
        a_link = Some ''http://x.com'', a_ipfs_hash = None, a_creator_wallet = None,
        a_original_agent_id = Some 2, a_fork_count = 0, a_is_premium = 0, a_created_at = 1\<rparr>]"
  "agents_seq state_dangling = 1"
proof -
  have "agents state_dangling =
          map (add_forks 2 1) (agents init_state @ [new_agent 1 (submit_fork_of ''2'') (Some 2) init_state])"
    by (simp add: state_dangling_def submit_valid [OF passes_fork_of] lineage_fork_of_2)
  then show "agents state_dangling =
     [\<lparr>a_id = 1, a_name = ''Fork of Bot1'', a_description = ''d'', a_category = ''Other'',
        a_link = Some ''http://x.com'', a_ipfs_hash = None, a_creator_wallet = None,
        a_original_agent_id = Some 2, a_fork_count = 0, a_is_premium = 0, a_created_at = 1\<rparr>]"
    by (simp add: new_agent_def add_forks_def agents_init next_rowid_def submit_fork_of_fields)
  show "agents_seq state_dangling = 1"
    by (simp add: state_dangling_def submit_valid [OF passes_fork_of] lineage_fork_of_2
          agents_init next_rowid_def)
qed

lemma agents_state_dangling_then_plain:
  "agents state_dangling_then_plain =
     [\<lparr>a_id = 1, a_name = ''Fork of Bot1'', a_description = ''d'', a_category = ''Other'',
        a_link = Some ''http://x.com'', a_ipfs_hash = None, a_creator_wallet = None,
        a_original_agent_id = Some 2, a_fork_count = 0, a_is_premium = 0, a_created_at = 1\<rparr>,
      \<lparr>a_id = 2, a_name = ''Bot1'', a_description = ''d'', a_category = ''Other'',
        a_link = Some ''http://x.com'', a_ipfs_hash = None, a_creator_wallet = None,
        a_original_agent_id = None, a_fork_count = 0, a_is_premium = 0, a_created_at = 2\<rparr>]"
proof -
  have "agents state_dangling_then_plain =
          agents state_dangling @ [new_agent 2 submit_bot1 None state_dangling]"
    by (simp add: state_dangling_then_plain_def submit_valid [OF passes_bot1] lineage_bot1)
  then show ?thesis
    by (simp add: agents_state_dangling new_agent_def next_rowid_def submit_bot1_fields)
qed

text \<open>
  C3, as stated, fails. The first submission names agent 2 as its original while no agent
  exists: the row is stored with that pointer and no fork count is updated. The
  invariant holds in the state so reached. A plain submission then creates agent 2
  with fork count 0, although one row points to it.
\<close>

theorem plain_submission_breaks_fork_count:
  "fork_count_inv init_state \<and> fork_count_inv state_dangling \<and>
   state_dangling_then_plain = snd (handle (Submit 2 None submit_bot1) state_dangling) \<and>
   \<not> fork_count_inv state_dangling_then_plain"
proof -
  have "fork_count_inv init_state"
    by (simp add: fork_count_inv_def agents_init)
  moreover have "fork_count_inv state_dangling"
    by (simp add: fork_count_inv_def forks_of_def agents_state_dangling)
  moreover have "\<not> fork_count_inv state_dangling_then_plain"
    by (simp add: fork_count_inv_def forks_of_def agents_state_dangling_then_plain)
  ultimately show ?thesis
    by (simp add: state_dangling_then_plain_def)
qed

text \<open>
  C3, amended: in every state reached from the empty database by logins, logouts,
  ratings and submissions whose lineage pointer, when present, does not exceed the id
  that the new row receives, the fork count of every agent is the number of rows
  whose \<open>original_agent_id\<close> is its id.
\<close>

theorem reachable_fork_count:
  assumes "reachable s"
  shows "fork_count_inv s"
proof -
  have "lineage_inv s"
    using assms by (induction rule: reachable.induct) (auto intro: lineage_inv_init lineage_inv_step)
  then show ?thesis by (simp add: lineage_inv_def)
qed

theorem reachable_fork_count_witness:
  "reachable state_forked \<and> fork_count_inv state_forked \<and>
   map a_fork_count (agents state_forked) = [1, 0]"
proof -
  have k1: "lineage_known init_state (Submit 7 None submit_bot1)"
    by (simp add: lineage_bot1)
  have k2: "lineage_known (snd (handle (Submit 7 None submit_bot1) init_state))
              (Submit 8 None (submit_fork_of ''1''))"
    by (simp add: lineage_fork_of_1 submit_valid [OF passes_bot1] lineage_bot1 agents_init
          next_rowid_def)
  have r: "reachable state_forked"
    unfolding state_forked_def by (rule reachable.step [OF reachable.step [OF reachable.init k1] k2])
  show ?thesis
    using reachable_fork_count [OF r] r by (simp add: agents_state_forked)
qed

section \<open>The \<open>LIKE\<close> operator\<close>

lemma like_percent_all: "like ''%'' str"
  by (induction str) auto

lemma like_percent:
  "like (CHR ''%'' # q) str \<longleftrightarrow> (\<exists>pre rest. str = pre @ rest \<and> like q rest)"
proof (induction str)
  case Nil
  then show ?case by (cases q) auto
next
  case (Cons c cs)
  show ?case
  proof
    assume "like (CHR ''%'' # q) (c # cs)"
    then consider "like q (c # cs)" | "like (CHR ''%'' # q) cs" by auto
    then show "\<exists>pre rest. c # cs = pre @ rest \<and> like q rest"
    proof cases
      case 1
      then have "c # cs = [] @ (c # cs) \<and> like q (c # cs)" by simp
      then show ?thesis by blast
    next
      case 2
      then obtain pre rest where "cs = pre @ rest" "like q rest" using Cons.IH by auto
      then have "c # cs = (c # pre) @ rest \<and> like q rest" by simp
      then show ?thesis by blast
    qed
  next
    assume "\<exists>pre rest. c # cs = pre @ rest \<and> like q rest"
    then obtain pre rest where pr: "c # cs = pre @ rest" "like q rest" by auto
    show "like (CHR ''%'' # q) (c # cs)"
    proof (cases pre)
      case Nil
      then have "like q (c # cs)" using pr by simp
      then show ?thesis by simp
    next
      case (Cons d ds)
      then have "cs = ds @ rest" using pr by simp
      then have "like (CHR ''%'' # q) cs" using pr Cons.IH by auto
      then show ?thesis by simp
    qed
  qed
qed

lemma like_literal:
  assumes "CHR ''%'' \<notin> set p" and "CHR ''_'' \<notin> set p"
  shows "like (p @ q) str \<longleftrightarrow>
           (\<exists>u rest. str = u @ rest \<and> map lower u = map lower p \<and> like q rest)"
  using assms
proof (induction p arbitrary: str)
  case Nil
  then show ?case by simp
next
  case (Cons x xs)
  then have x: "x \<noteq> CHR ''%''" "x \<noteq> CHR ''_''" and xs: "CHR ''%'' \<notin> set xs" "CHR ''_'' \<notin> set xs"
    by auto
  show ?case
  proof (cases str)
    case Nil
    then show ?thesis using x by simp
  next
    case (Cons c cs)
    have "like ((x # xs) @ q) (c # cs) \<longleftrightarrow> lower x = lower c \<and> like (xs @ q) cs"
      using x by simp
    also have "\<dots> \<longleftrightarrow> lower x = lower c \<and>
                 (\<exists>u rest. cs = u @ rest \<and> map lower u = map lower xs \<and> like q rest)"
      using Cons.IH [OF xs] by simp
    also have "\<dots> \<longleftrightarrow> (\<exists>u rest. c # cs = u @ rest \<and> map lower u = map lower (x # xs) \<and> like q rest)"
    proof
      assume "lower x = lower c \<and>
                (\<exists>u rest. cs = u @ rest \<and> map lower u = map lower xs \<and> like q rest)"
      then obtain u rest where "lower x = lower c" "cs = u @ rest" "map lower u = map lower xs"
        "like q rest" by blast
      then have "c # cs = (c # u) @ rest \<and> map lower (c # u) = map lower (x # xs) \<and> like q rest"
        by simp
      then show "\<exists>u rest. c # cs = u @ rest \<and> map lower u = map lower (x # xs) \<and> like q rest"
        by blast
    next
      assume "\<exists>u rest. c # cs = u @ rest \<and> map lower u = map lower (x # xs) \<and> like q rest"
      then obtain u rest where a: "c # cs = u @ rest" "map lower u = map lower (x # xs)" "like q rest"
        by blast
      then obtain d ds where u: "u = d # ds" by (cases u) auto
      then show "lower x = lower c \<and>
                (\<exists>u rest. cs = u @ rest \<and> map lower u = map lower xs \<and> like q rest)"
        using a by auto
    qed
    finally show ?thesis using Cons by simp
  qed
qed

lemma like_contains:
  assumes "CHR ''%'' \<notin> set p" and "CHR ''_'' \<notin> set p"
  shows "like (''%'' @ p @ ''%'') str \<longleftrightarrow> (\<exists>u. sublist u str \<and> map lower u = map lower p)"
proof -
  have "like (''%'' @ p @ ''%'') str \<longleftrightarrow> (\<exists>pre rest. str = pre @ rest \<and> like (p @ ''%'') rest)"
    using like_percent [of "p @ ''%''" str] by simp
  also have "\<dots> \<longleftrightarrow> (\<exists>pre u post. str = pre @ u @ post \<and> map lower u = map lower p)"
    by (auto simp add: like_literal [OF assms] like_percent_all)
  also have "\<dots> \<longleftrightarrow> (\<exists>u. sublist u str \<and> map lower u = map lower p)"
    by (auto simp add: sublist_def)
  finally show ?thesis .
qed

section \<open>Browse: filters\<close>

lemma group_row_fields [simp]:
  "a_id (group_row s a) = a_id a" "a_name (group_row s a) = a_name a"
  "a_description (group_row s a) = a_description a" "a_category (group_row s a) = a_category a"
  "a_fork_count (group_row s a) = a_fork_count a" "a_created_at (group_row s a) = a_created_at a"
  by (simp_all add: group_row_def Let_def agents_row.defs)

lemma set_orderClause: "set (orderClause sortBy rows) = set rows"
  by (simp add: orderClause_def)

lemma browse_row:
  assumes "v \<in> set (browse s category search sortBy)"
  obtains a where "a \<in> set (agents s)" "whereClause category search a" "v = group_row s a"
  using assms by (auto simp add: browse_def set_orderClause)

lemma browse_two_rated_rating: "map a_id (browse state_two_rated None None (Some ''rating'')) = [1, 2]"
  by code_simp

lemma browse_two_rated_recent: "map a_id (browse state_two_rated None None None) = [2, 1]"
  by code_simp

lemma browse_forked_search: "map a_id (browse state_forked (Some ''Other'') (Some ''bot'') None) = [2, 1]"
  by code_simp

text \<open>
  C6, as stated, fails: the search string is a \<open>LIKE\<close> pattern. The search \<open>B_t1\<close> returns
  the agents named \<open>Bot1\<close> and \<open>Fork of Bot1\<close>, both described by \<open>d\<close>, although \<open>B_t1\<close> is
  not a substring of \<open>Bot1\<close> or of \<open>d\<close>, with or without regard to the case of letters.
\<close>

theorem browse_wildcard_search:
  "map a_name (browse state_forked None (Some ''B_t1'') None) = [''Fork of Bot1'', ''Bot1''] \<and>
   map a_description (browse state_forked None (Some ''B_t1'') None) = [''d'', ''d''] \<and>
   \<not> sublist ''B_t1'' ''Bot1'' \<and> \<not> sublist ''B_t1'' ''d'' \<and>
   \<not> sublist (map lower ''B_t1'') (map lower ''Bot1'') \<and>
   \<not> sublist (map lower ''B_t1'') (map lower ''d'')"
  by code_simp

text \<open>
  C6, amended: for every category, search and sort mode, every row that browse returns
  has the category asked for, when that is not empty and not \<open>all\<close>, and, when the search
  string is not empty, a name or a description that matches the pattern \<open>%search%\<close> of
  \<open>LIKE\<close>; both hold when both filters are given. When moreover the search string has
  neither \<open>%\<close> nor \<open>_\<close>, the name or the description has a substring that equals the
  search string up to the case of ASCII letters.
\<close>

theorem browse_rows_match_filters:
  assumes "v \<in> set (browse s category search sortBy)"
  shows "(truthy category \<and> category \<noteq> Some ''all'' \<longrightarrow> a_category v = the category) \<and>
         (truthy search \<longrightarrow>
            like (''%'' @ the search @ ''%'') (a_name v) \<or>
            like (''%'' @ the search @ ''%'') (a_description v)) \<and>
         (truthy search \<and> CHR ''%'' \<notin> set (the search) \<and> CHR ''_'' \<notin> set (the search) \<longrightarrow>
            (\<exists>u. map lower u = map lower (the search) \<and>
                 (sublist u (a_name v) \<or> sublist u (a_description v))))"
proof -
  obtain a where a: "whereClause category search a" "v = group_row s a"
    using assms by (rule browse_row)
  have c: "truthy category \<and> category \<noteq> Some ''all'' \<longrightarrow> a_category v = the category"
    using a by (auto simp add: whereClause_def)
  have l: "truthy search \<longrightarrow>
            like (''%'' @ the search @ ''%'') (a_name v) \<or>
            like (''%'' @ the search @ ''%'') (a_description v)"
    using a by (auto simp add: whereClause_def simp del: like.simps)
  have "\<exists>u. map lower u = map lower (the search) \<and>
                 (sublist u (a_name v) \<or> sublist u (a_description v))"
    if "truthy search" "CHR ''%'' \<notin> set (the search)" "CHR ''_'' \<notin> set (the search)"
    using l that like_contains [OF that(2,3)] by blast
  then show ?thesis using c l by blast
qed

theorem browse_rows_match_filters_witness:
  "hd (browse state_forked (Some ''Other'') (Some ''bot'') None)
     \<in> set (browse state_forked (Some ''Other'') (Some ''bot'') None) \<and>
   a_category (hd (browse state_forked (Some ''Other'') (Some ''bot'') None)) = ''Other'' \<and>
   (like ''%bot%'' (a_name (hd (browse state_forked (Some ''Other'') (Some ''bot'') None))) \<or>
    like ''%bot%'' (a_description (hd (browse state_forked (Some ''Other'') (Some ''bot'') None))))"
proof -
  have "browse state_forked (Some ''Other'') (Some ''bot'') None \<noteq> []"
    using browse_forked_search by auto
  then have m: "hd (browse state_forked (Some ''Other'') (Some ''bot'') None)
                  \<in> set (browse state_forked (Some ''Other'') (Some ''bot'') None)"
    by simp
  show ?thesis
    using browse_rows_match_filters [OF m] m by (simp add: truthy_def del: like.simps)
qed

section \<open>Browse: sorting by rating\<close>

text \<open>
  C7: with sort mode \<open>rating\<close>, of any two rows of the result the earlier one has the
  greater or equal average, and when the averages are equal the greater or equal rating
  count. This holds for all pairs, so for adjacent rows, in every state and under every
  filter.
\<close>

theorem browse_rating_sorted:
  "sorted_wrt (\<lambda>x y. avg_rating y \<le> avg_rating x \<and>
                      (avg_rating y = avg_rating x \<longrightarrow> rating_count y \<le> rating_count x))
     (browse s category search (Some ''rating''))"
proof -
  let ?key = "\<lambda>v :: view_row. (- avg_rating v, - int (rating_count v))"
  let ?rows = "browse s category search (Some ''rating'')"
  have "sorted (map ?key ?rows)"
    by (simp add: browse_def orderClause_def)
  then have "sorted_wrt (\<lambda>x y. ?key x \<le> ?key y) ?rows"
    by (simp add: sorted_wrt_map)
  then show ?thesis
    by (rule sorted_wrt_mono_rel [rotated]) (auto simp add: less_eq_prod_def)
qed

theorem browse_rating_sorted_witness:
  "map a_id (browse state_two_rated None None (Some ''rating'')) = [1, 2] \<and>
   map a_id (browse state_two_rated None None None) = [2, 1] \<and>
   sorted_wrt (\<lambda>x y. avg_rating y \<le> avg_rating x \<and>
                      (avg_rating y = avg_rating x \<longrightarrow> rating_count y \<le> rating_count x))
     (browse state_two_rated None None (Some ''rating''))"
  using browse_rating_sorted [of state_two_rated None None] browse_two_rated_rating
    browse_two_rated_recent
  by simp

section \<open>Browse: aggregates\<close>

text \<open>
  For an agent without tags and with at most one user row for its creator wallet, the
  aggregates are the number and the mean of its ratings, and the tags aggregate is null.
\<close>

lemma left_join_one: "length (left_join on rows) \<le> 1 \<Longrightarrow> \<exists>x. left_join on rows = [x]"
  by (cases "left_join on rows") (auto simp add: left_join_def split: list.splits)

lemma left_join_length: "filter on rows = [] \<Longrightarrow> left_join on rows = [None]"
  by (simp add: left_join_def)

lemma group_row_without_tags:
  assumes tags: "filter (\<lambda>x. at_agent_id x = a_id a) (agent_tags s) = []"
      and user: "length (filter (\<lambda>u. a_creator_wallet a = Some (u_wallet_address u)) (users s)) \<le> 1"
  shows "rating_count (group_row s a) = length (filter (\<lambda>r. r_agent_id r = a_id a) (ratings s)) \<and>
         avg_rating (group_row s a) =
           (if filter (\<lambda>r. r_agent_id r = a_id a) (ratings s) = [] then 0
            else of_int (sum_list (map r_stars (filter (\<lambda>r. r_agent_id r = a_id a) (ratings s)))) /
                 of_nat (length (filter (\<lambda>r. r_agent_id r = a_id a) (ratings s)))) \<and>
         tags_concat (group_row s a) = None"
proof -
  let ?rs = "filter (\<lambda>r. r_agent_id r = a_id a) (ratings s)"
  have "length (left_join (\<lambda>u. a_creator_wallet a = Some (u_wallet_address u)) (users s)) \<le> 1"
    using user by (auto simp add: left_join_def split: list.splits)
  then obtain x where x: "left_join (\<lambda>u. a_creator_wallet a = Some (u_wallet_address u)) (users s) = [x]"
    using left_join_one by blast
  have js: "joined s a = map (\<lambda>r. (x, r, None)) (left_join (\<lambda>r. r_agent_id r = a_id a) (ratings s))"
    by (simp add: joined_def x left_join_length [OF tags])
  have stars: "[r_stars r. (u, Some r, t) \<leftarrow> joined s a] = map r_stars ?rs"
  proof (cases ?rs)
    case Nil
    then show ?thesis by (simp add: js left_join_def)
  next
    case (Cons r rs)
    have "concat (map (\<lambda>r. [r_stars r]) ys) = map r_stars ys" for ys :: "ratings_row list"
      by (induction ys) auto
    then show ?thesis using Cons by (simp add: js left_join_def o_def del: filter.simps)
  qed
  have names: "[t_name t. (u, r, Some t) \<leftarrow> joined s a] = []"
    by (simp add: js o_def)
  show ?thesis
    unfolding group_row_def Let_def stars names by (simp add: agents_row.defs view_row.defs)
qed

text \<open>
  C8 fails on the code. Agent 1 has two ratings of 5 stars and the two tags \<open>ai\<close> and
  \<open>bot\<close>. The joins with \<open>ratings\<close> and with \<open>agent_tags\<close> multiply: the group of agent 1 has
  four joined rows, so \<open>COUNT(r.id)\<close> is 4 and \<open>GROUP_CONCAT(t.name)\<close> names every tag twice.
  The average is the mean of the ratings.
\<close>

theorem browse_counts_joined_rows:
  "length (filter (\<lambda>r. r_agent_id r = 1) (ratings state_tagged)) = 2 \<and>
   map avg_rating (browse state_tagged None None None) = [5] \<and>
   map rating_count (browse state_tagged None None None) = [4] \<and>
   map tags_concat (browse state_tagged None None None) = [Some ''ai,bot,ai,bot'']"
  by code_simp

end
